theory Spec2Isabelle
  imports Main
begin

section \<open>The AuthCard widget of better-auth-react\<close>

text \<open>
  A shallow embedding of \<^verbatim>\<open>src/components/auth-card.tsx\<close>. The component is a React
  function component: its state lives in six \<^verbatim>\<open>useState\<close> cells, its event handlers
  and its four \<^verbatim>\<open>useEffect\<close> bodies queue writes to these cells and call functions of
  the host (the navigation function, the authentication client, the toast sink).
  A handler or an effect body is modelled as the list of operations it performs, in
  program order; the component is a transition system over committed renders.
\<close>

subsection \<open>Data\<close>

text \<open>\<^verbatim>\<open>authViews\<close> (line 24) and the type \<^verbatim>\<open>AuthView\<close> of its members.\<close>

datatype AuthView = Login | Signup | ForgotPassword | ResetPassword | Logout

definition authViews :: "AuthView list" where
  "authViews = [Login, Signup, ForgotPassword, ResetPassword, Logout]"

fun view_name :: "AuthView \<Rightarrow> string" where
  "view_name Login = ''login''"
| "view_name Signup = ''signup''"
| "view_name ForgotPassword = ''forgot-password''"
| "view_name ResetPassword = ''reset-password''"
| "view_name Logout = ''logout''"

text \<open>\<^verbatim>\<open>AuthToastOptions\<close> (lines 69-76); the action is kept by its label.\<close>

datatype toast_variant = Default | Destructive

record AuthToastOptions =
  description :: string
  variant :: toast_variant
  toast_action :: "string option"

text \<open>
  The part of \<^verbatim>\<open>NextRouter\<close> the component reads: \<^verbatim>\<open>isReady\<close>, \<^verbatim>\<open>asPath\<close>; its
  \<^verbatim>\<open>push\<close> is a navigation target below.
\<close>

record NextRouter =
  isReady :: bool
  asPath :: string

text \<open>
  The link component: the built-in \<^verbatim>\<open>DefaultLink\<close> (lines 27-33) renders an anchor
  from \<^verbatim>\<open>href\<close>, \<^verbatim>\<open>className\<close> and \<^verbatim>\<open>children\<close> only, so a click handler handed to it
  is dropped. A link component of the host is a parameter: it either passes a click
  handler it receives on to the element it renders, or it does not.
\<close>

datatype link_component = DefaultLink | HostLink bool

text \<open>
  \<^verbatim>\<open>AuthCardProps\<close> (lines 78-92). An optional property is an \<open>option\<close>; the two
  function properties \<^verbatim>\<open>navigate\<close> and \<^verbatim>\<open>toast\<close> are kept as whether the host passed
  them. \<^verbatim>\<open>authClient\<close> is the backend below; \<^verbatim>\<open>localization\<close> and
  \<^verbatim>\<open>disableAnimation\<close> only select texts and style classes.
\<close>

record AuthCardProps =
  navigate :: bool
  pathname :: "string option"
  nextRouter :: "NextRouter option"
  initialView :: "AuthView option"
  emailPassword :: "bool option"
  magicLink :: "bool option"
  startWithMagicLink :: "bool option"
  disableRouting :: "bool option"
  toast :: bool
  LinkComponent :: "link_component option"

text \<open>
  What \<^verbatim>\<open>authClient.useSession()\<close> returns (line 115). The session object is compared
  by identity in the dependency list of an effect, so it carries its identity.
  \<^verbatim>\<open>isAnonymous\<close> is read through \<^verbatim>\<open>?.\<close> and negated: the user and the flag may be
  missing.
\<close>

record session_user =
  isAnonymous :: "bool option"

record session =
  obj_ref :: nat
  user :: "session_user option"

record session_obs =
  data :: "session option"
  isPending :: bool

text \<open>The result of \<^verbatim>\<open>authClient.signIn.email\<close> as line 128 reads it.\<close>

record backend_error =
  message :: "string option"

record response =
  error :: "backend_error option"

text \<open>The six state cells (lines 116-121).\<close>

record state =
  email :: string
  password :: string
  loading :: bool
  view :: AuthView
  isMagicLink :: bool
  authToast :: "AuthToastOptions option"

subsection \<open>Operations of a handler\<close>

text \<open>A queued write to a state cell: one constructor per setter.\<close>

datatype update =
    SetEmail string
  | SetPassword string
  | SetLoading bool
  | SetView AuthView
  | SetIsMagicLink bool
  | SetAuthToast "AuthToastOptions option"

text \<open>
  The operations of the authentication client. The component calls
  \<^verbatim>\<open>signIn.email\<close> only; the others are the operations a view-specific submission
  would use.
\<close>

datatype backend_op =
    SignInEmail string string
  | SignInMagicLink string
  | SignUpEmail string string
  | ForgetPassword string
  | ResetPasswordOp string
  | SignOut

text \<open>
  Line 113: \<^verbatim>\<open>navigate = navigate || nextRouter?.push || defaultNavigate\<close>; the last
  assigns \<^verbatim>\<open>window.location.href\<close> (line 35).
\<close>

datatype nav_target = HostNavigate | RouterPush | WindowLocation

datatype call =
    Navigate nav_target string
  | Backend backend_op
  | Toast AuthToastOptions
  | FollowLink string

datatype op = Upd update | Call call

fun apply_update :: "state \<Rightarrow> update \<Rightarrow> state" where
  "apply_update s (SetEmail v) = s\<lparr>email := v\<rparr>"
| "apply_update s (SetPassword v) = s\<lparr>password := v\<rparr>"
| "apply_update s (SetLoading v) = s\<lparr>loading := v\<rparr>"
| "apply_update s (SetView v) = s\<lparr>view := v\<rparr>"
| "apply_update s (SetIsMagicLink v) = s\<lparr>isMagicLink := v\<rparr>"
| "apply_update s (SetAuthToast v) = s\<lparr>authToast := v\<rparr>"

fun apply_op :: "state \<Rightarrow> op \<Rightarrow> state" where
  "apply_op s (Upd u) = apply_update s u"
| "apply_op s (Call c) = s"

definition apply_ops :: "state \<Rightarrow> op list \<Rightarrow> state" where
  "apply_ops s ops = foldl apply_op s ops"

fun calls_of :: "op list \<Rightarrow> call list" where
  "calls_of [] = []"
| "calls_of (Upd u # ops) = calls_of ops"
| "calls_of (Call c # ops) = c # calls_of ops"

subsection \<open>Reading the properties\<close>

text \<open>JavaScript truthiness of an optional boolean.\<close>

fun truthy :: "bool option \<Rightarrow> bool" where
  "truthy None = False"
| "truthy (Some b) = b"

text \<open>Defaults of the destructuring (lines 102-103).\<close>

definition initialView_of :: "AuthCardProps \<Rightarrow> AuthView" where
  "initialView_of pr = (case initialView pr of None \<Rightarrow> Login | Some v \<Rightarrow> v)"

definition emailPassword_of :: "AuthCardProps \<Rightarrow> bool" where
  "emailPassword_of pr = (case emailPassword pr of None \<Rightarrow> True | Some b \<Rightarrow> b)"

definition navigate_of :: "AuthCardProps \<Rightarrow> nav_target" where
  "navigate_of pr =
     (if navigate pr then HostNavigate
      else if nextRouter pr \<noteq> None then RouterPush
      else WindowLocation)"

text \<open>
  Line 114: \<^verbatim>\<open>pathname = pathname || nextRouter?.asPath\<close>. The empty string is falsy.
\<close>

definition pathname_of :: "AuthCardProps \<Rightarrow> string option" where
  "pathname_of pr =
     (case pathname pr of
        Some p \<Rightarrow> if p \<noteq> [] then Some p else map_option asPath (nextRouter pr)
      | None \<Rightarrow> map_option asPath (nextRouter pr))"

definition init_state :: "AuthCardProps \<Rightarrow> state" where
  "init_state pr =
     \<lparr>email = [], password = [], loading = False, view = initialView_of pr,
      isMagicLink = (truthy (startWithMagicLink pr) \<or> \<not> emailPassword_of pr),
      authToast = None\<rparr>"

subsection \<open>The effects\<close>

text \<open>
  \<^verbatim>\<open>String.prototype.split("/")\<close>: the pieces between the separators; the empty string
  gives one empty piece. \<^verbatim>\<open>Array.prototype.pop\<close> returns the last element, or
  \<^verbatim>\<open>undefined\<close> on an empty array.
\<close>

fun js_split :: "string \<Rightarrow> string list" where
  "js_split [] = [[]]"
| "js_split (c # cs) =
     (if c = CHR ''/'' then [] # js_split cs
      else (case js_split cs of [] \<Rightarrow> [[c]] | s # ss \<Rightarrow> (c # s) # ss))"

fun pop :: "'a list \<Rightarrow> 'a option" where
  "pop [] = None"
| "pop xs = Some (last xs)"

text \<open>Lines 139-143. The argument is \<^verbatim>\<open>sessionData\<close>.\<close>

definition session_effect :: "AuthCardProps \<Rightarrow> session option \<Rightarrow> op list" where
  "session_effect pr sessionData =
     (case sessionData of
        None \<Rightarrow> []
      | Some s \<Rightarrow>
          if \<not> truthy (case user s of None \<Rightarrow> None | Some u \<Rightarrow> isAnonymous u)
          then [Call (Navigate (navigate_of pr) ''/'')]
          else [])"

text \<open>
  Lines 145-152. The argument is \<^verbatim>\<open>pathname\<close> after line 114.
  \<^verbatim>\<open>authViews.includes(path)\<close> followed by \<^verbatim>\<open>setView(path)\<close> looks the name up among
  the views.
\<close>

definition pathname_effect :: "string option \<Rightarrow> op list" where
  "pathname_effect pn =
     (case pn of
        None \<Rightarrow> []
      | Some p \<Rightarrow>
          if p = [] then []
          else (case pop (js_split p) of
                  None \<Rightarrow> []
                | Some path \<Rightarrow>
                    (case find (\<lambda>v. view_name v = path) authViews of
                       Some v \<Rightarrow> [Upd (SetView v)]
                     | None \<Rightarrow> [])))"

text \<open>Lines 154-158.\<close>

definition view_effect :: "AuthView \<Rightarrow> op list" where
  "view_effect v = (if v \<noteq> Login then [Upd (SetIsMagicLink False)] else [])"

text \<open>Lines 160-164.\<close>

definition authToast_effect :: "AuthCardProps \<Rightarrow> AuthToastOptions option \<Rightarrow> op list" where
  "authToast_effect pr t =
     (case t of
        None \<Rightarrow> []
      | Some a \<Rightarrow> if \<not> toast pr then [] else [Call (Toast a)])"

text \<open>
  The final segment of a path as the specification words it: the text after the last
  \<open>/\<close> (the whole path when it has none).
\<close>

definition final_segment :: "string \<Rightarrow> string" where
  "final_segment p = rev (takeWhile (\<lambda>c. c \<noteq> CHR ''/'') (rev p))"

subsection \<open>Handlers\<close>

text \<open>
  \<^verbatim>\<open>onSubmit\<close> (lines 123-137) in its two halves: up to the \<^verbatim>\<open>await\<close>, and after the
  backend has answered. \<^verbatim>\<open>e?.preventDefault()\<close> only stops the browser's own form
  submission.
\<close>

definition onSubmit_start :: "state \<Rightarrow> op list" where
  "onSubmit_start s =
     [Upd (SetAuthToast None),
      Upd (SetLoading True),
      Call (Backend (SignInEmail (email s) (password s)))]"

definition onSubmit_resume :: "response \<Rightarrow> op list" where
  "onSubmit_resume r =
     Upd (SetLoading False) #
     (case error r of
        None \<Rightarrow> []
      | Some e \<Rightarrow>
          (case message e of
             None \<Rightarrow> []
           | Some m \<Rightarrow>
               if m = [] then []
               else [Upd (SetAuthToast
                       (Some \<lparr>description = m, variant = Destructive,
                              toast_action = None\<rparr>))]))"

text \<open>The footer button (lines 334-353).\<close>

definition linkComponent_of :: "AuthCardProps \<Rightarrow> link_component" where
  "linkComponent_of pr = (case LinkComponent pr of None \<Rightarrow> DefaultLink | Some l \<Rightarrow> l)"

fun link_passes_onClick :: "link_component \<Rightarrow> bool" where
  "link_passes_onClick DefaultLink = False"
| "link_passes_onClick (HostLink b) = b"

definition toggle_onClick :: "state \<Rightarrow> op list" where
  "toggle_onClick s = [Upd (SetView (if view s = Signup then Login else Signup))]"

definition toggle_href :: "state \<Rightarrow> string" where
  "toggle_href s = (if view s = Signup then ''/auth/login'' else ''/auth/signup'')"

text \<open>
  With \<^verbatim>\<open>disableRouting\<close> the button is a button and a click runs \<^verbatim>\<open>onClick\<close>.
  Otherwise (\<^verbatim>\<open>asChild\<close>) the button's properties go to its child, the link component
  with \<^verbatim>\<open>href\<close>: a click follows the link, and runs \<^verbatim>\<open>onClick\<close> only if the link
  component passes it on.
\<close>

definition toggle_click :: "AuthCardProps \<Rightarrow> state \<Rightarrow> op list" where
  "toggle_click pr s =
     (if truthy (disableRouting pr) then toggle_onClick s
      else (if link_passes_onClick (linkComponent_of pr) then toggle_onClick s else [])
           @ [Call (FollowLink (toggle_href s))])"

subsection \<open>What a render shows\<close>

datatype input_type = EmailType | PasswordType

record input_attrs =
  input_type :: input_type
  required :: bool
  disabled :: bool
  input_value :: string

text \<open>Lines 190-199.\<close>

definition email_input :: "state \<Rightarrow> input_attrs" where
  "email_input s =
     \<lparr>input_type = EmailType, required = True, disabled = False,
      input_value = email s\<rparr>"

text \<open>Lines 225-233.\<close>

definition password_input :: "state \<Rightarrow> input_attrs" where
  "password_input s =
     \<lparr>input_type = PasswordType, required = False, disabled = isMagicLink s,
      input_value = password s\<rparr>"

text \<open>Line 240.\<close>

definition submit_disabled :: "state \<Rightarrow> bool" where
  "submit_disabled s = loading s"

text \<open>Lines 294 and 313.\<close>

definition magicLink_button_disabled :: "AuthCardProps \<Rightarrow> state \<Rightarrow> bool" where
  "magicLink_button_disabled pr s =
     (view s \<noteq> Login \<or> \<not> truthy (magicLink pr) \<or> isMagicLink s)"

definition password_button_disabled :: "AuthCardProps \<Rightarrow> state \<Rightarrow> bool" where
  "password_button_disabled pr s =
     (view s \<noteq> Login \<or> \<not> emailPassword_of pr \<or> \<not> isMagicLink s)"

text \<open>
  The browser's side of a form. What an input of type \<^verbatim>\<open>email\<close> accepts is the valid
  e-mail address of the HTML standard: a non-empty local part of letters, digits and
  the characters \<^verbatim>\<open>.!#$%&'*+/=?^_`{|}~-\<close>, one \<^verbatim>\<open>@\<close>, and a domain of labels
  separated by dots, each label of 1 to 63 letters, digits and hyphens that neither
  starts nor ends with a hyphen.
\<close>

definition is_alnum :: "char \<Rightarrow> bool" where
  "is_alnum c =
     (let n = (of_char c :: nat)
      in (48 \<le> n \<and> n \<le> 57) \<or> (65 \<le> n \<and> n \<le> 90) \<or> (97 \<le> n \<and> n \<le> 122))"

definition is_atext :: "char \<Rightarrow> bool" where
  "is_atext c =
     (is_alnum c \<or> c \<in> set ''.!#$%&*+/=?^_{|}~-'' \<or> of_char c = (39::nat)
      \<or> of_char c = (96::nat))"

fun split_at :: "char \<Rightarrow> string \<Rightarrow> string list" where
  "split_at d [] = [[]]"
| "split_at d (c # cs) =
     (if c = d then [] # split_at d cs
      else (case split_at d cs of [] \<Rightarrow> [[c]] | s # ss \<Rightarrow> (c # s) # ss))"

definition valid_label :: "string \<Rightarrow> bool" where
  "valid_label l =
     (l \<noteq> [] \<and> length l \<le> 63 \<and> is_alnum (hd l) \<and> is_alnum (last l)
      \<and> list_all (\<lambda>c. is_alnum c \<or> c = CHR ''-'') l)"

definition valid_email_address :: "string \<Rightarrow> bool" where
  "valid_email_address v =
     (case split_at CHR ''@'' v of
        [local_part, domain] \<Rightarrow>
          local_part \<noteq> [] \<and> list_all is_atext local_part
          \<and> list_all valid_label (split_at CHR ''.'' domain)
      | _ \<Rightarrow> False)"

text \<open>
  An enabled field stops the submission, before the \<^verbatim>\<open>submit\<close> event, when it is
  required and empty, and when it is of type \<^verbatim>\<open>email\<close> and holds text that is not a
  valid address; a disabled field is not validated. A disabled submit button stops
  the submission too. The value of a field is the text the field reports to
  \<^verbatim>\<open>onChange\<close>.
\<close>

definition type_mismatch :: "input_attrs \<Rightarrow> bool" where
  "type_mismatch i =
     (input_type i = EmailType \<and> input_value i \<noteq> []
      \<and> \<not> valid_email_address (input_value i))"

definition blocks_submission :: "input_attrs \<Rightarrow> bool" where
  "blocks_submission i =
     (\<not> disabled i \<and> ((required i \<and> input_value i = []) \<or> type_mismatch i))"

definition can_submit :: "state \<Rightarrow> bool" where
  "can_submit s =
     (\<not> submit_disabled s \<and> \<not> blocks_submission (email_input s)
      \<and> \<not> blocks_submission (password_input s))"

subsection \<open>The component as a transition system\<close>

text \<open>
  The dependency lists of the four effects (lines 143, 152, 158, 164), as values of
  one render.
\<close>

record deps =
  dep_sessionData :: "session option"
  dep_pathname :: "string option"
  dep_view :: AuthView
  dep_authToast :: "AuthToastOptions option"

text \<open>
  A configuration is the committed render: the properties and the session observation
  it was rendered with, the state cells, the dependencies of the last render whose
  effects have run (none before the effects of the first render), and the number of
  backend requests that have not been answered.
\<close>

record config =
  props :: AuthCardProps
  obs :: session_obs
  st :: state
  flushed :: "deps option"
  inflight :: nat

definition deps_of :: "config \<Rightarrow> deps" where
  "deps_of c =
     \<lparr>dep_sessionData = data (obs c), dep_pathname = pathname_of (props c),
      dep_view = view (st c), dep_authToast = authToast (st c)\<rparr>"

text \<open>An effect runs after the first render, and after a render that changed a dependency.\<close>

definition dep_changed :: "config \<Rightarrow> (deps \<Rightarrow> 'a) \<Rightarrow> bool" where
  "dep_changed c f = (case flushed c of None \<Rightarrow> True | Some d \<Rightarrow> f d \<noteq> f (deps_of c))"

definition settled :: "config \<Rightarrow> bool" where
  "settled c = (flushed c = Some (deps_of c))"

text \<open>
  The effects of one render, in the order of their declaration. They all read the
  values of that render; their writes are applied afterwards, in order.
\<close>

definition effects_of :: "config \<Rightarrow> op list" where
  "effects_of c =
     (if dep_changed c dep_sessionData then session_effect (props c) (data (obs c)) else [])
     @ (if dep_changed c dep_pathname then pathname_effect (pathname_of (props c)) else [])
     @ (if dep_changed c dep_view then view_effect (view (st c)) else [])
     @ (if dep_changed c dep_authToast then authToast_effect (props c) (authToast (st c))
        else [])"

definition flush :: "config \<Rightarrow> config \<times> call list" where
  "flush c =
     (c\<lparr>st := apply_ops (st c) (effects_of c), flushed := Some (deps_of c)\<rparr>,
      calls_of (effects_of c))"

definition handle :: "config \<Rightarrow> op list \<Rightarrow> config \<times> call list" where
  "handle c ops = (c\<lparr>st := apply_ops (st c) ops\<rparr>, calls_of ops)"

text \<open>
  What can happen to a mounted component. \<open>Flush\<close> runs the pending effects; React
  runs them before it handles anything else, so every other event needs a settled
  configuration. A control that is rendered disabled takes no click, and the form
  submits only when the browser lets it.
\<close>

datatype event =
    Flush
  | Rerender AuthCardProps
  | SessionUpdate session_obs
  | ChangeEmail string
  | ChangePassword string
  | Submit
  | Respond response
  | ClickMagicLink
  | ClickPasswordProvider
  | ClickToggle

fun step :: "config \<Rightarrow> event \<Rightarrow> (config \<times> call list) option" where
  "step c Flush = (if settled c then None else Some (flush c))"
| "step c (Rerender pr) = (if settled c then Some (c\<lparr>props := pr\<rparr>, []) else None)"
| "step c (SessionUpdate ob) = (if settled c then Some (c\<lparr>obs := ob\<rparr>, []) else None)"
| "step c (ChangeEmail v) =
     (if settled c then Some (handle c [Upd (SetEmail v)]) else None)"
| "step c (ChangePassword v) =
     (if settled c \<and> \<not> disabled (password_input (st c))
      then Some (handle c [Upd (SetPassword v)]) else None)"
| "step c Submit =
     (if settled c \<and> can_submit (st c)
      then Some (handle (c\<lparr>inflight := Suc (inflight c)\<rparr>) (onSubmit_start (st c)))
      else None)"
| "step c (Respond r) =
     (if settled c \<and> 0 < inflight c
      then Some (handle (c\<lparr>inflight := inflight c - 1\<rparr>) (onSubmit_resume r))
      else None)"
| "step c ClickMagicLink =
     (if settled c \<and> \<not> magicLink_button_disabled (props c) (st c)
      then Some (handle c [Upd (SetIsMagicLink True)]) else None)"
| "step c ClickPasswordProvider =
     (if settled c \<and> \<not> password_button_disabled (props c) (st c)
      then Some (handle c [Upd (SetIsMagicLink False)]) else None)"
| "step c ClickToggle =
     (if settled c then Some (handle c (toggle_click (props c) (st c))) else None)"

definition mount :: "AuthCardProps \<Rightarrow> session_obs \<Rightarrow> config" where
  "mount pr ob =
     \<lparr>props = pr, obs = ob, st = init_state pr, flushed = None, inflight = 0\<rparr>"

fun run :: "config \<Rightarrow> event list \<Rightarrow> (config \<times> call list) option" where
  "run c [] = Some (c, [])"
| "run c (e # es) =
     (case step c e of
        None \<Rightarrow> None
      | Some (c', cs) \<Rightarrow>
          (case run c' es of
             None \<Rightarrow> None
           | Some (c'', cs') \<Rightarrow> Some (c'', cs @ cs')))"

inductive reachable :: "config \<Rightarrow> bool" where
  reachable_mount: "reachable (mount pr ob)"
| reachable_step: "reachable c \<Longrightarrow> step c e = Some (c', cs) \<Longrightarrow> reachable c'"

fun is_navigate :: "call \<Rightarrow> bool" where
  "is_navigate (Navigate t p) = True"
| "is_navigate _ = False"

fun is_backend :: "call \<Rightarrow> bool" where
  "is_backend (Backend b) = True"
| "is_backend _ = False"

text \<open>
  The invariant of the submission cycle: at most one request is unanswered, the
  \<^verbatim>\<open>loading\<close> cell says whether one is, and no notification stands while one is.
\<close>

definition submission_inv :: "config \<Rightarrow> bool" where
  "submission_inv c =
     (inflight c \<le> 1 \<and> loading (st c) = (inflight c = 1)
      \<and> (loading (st c) \<longrightarrow> authToast (st c) = None))"

text \<open>
  The invariant of the magic-link mode: a render of another view than login has the
  mode off, or is a render whose view effect has not run yet.
\<close>

definition magic_inv :: "config \<Rightarrow> bool" where
  "magic_inv c =
     (view (st c) = Login \<or> \<not> isMagicLink (st c) \<or> dep_changed c dep_view)"

subsection \<open>Example inputs\<close>

text \<open>The component with no optional property set, before the session is known.\<close>

definition default_props :: AuthCardProps where
  "default_props =
     \<lparr>navigate = False, pathname = None, nextRouter = None, initialView = None,
      emailPassword = None, magicLink = None, startWithMagicLink = None,
      disableRouting = None, toast = False, LinkComponent = None\<rparr>"

definition pending_obs :: session_obs where
  "pending_obs = \<lparr>data = None, isPending = True\<rparr>"

text \<open>
  A session of a user who is not anonymous, once in an observation that is still
  flagged pending and once in one that is not.
\<close>

definition pending_signed_in_obs :: session_obs where
  "pending_signed_in_obs =
     \<lparr>data = Some \<lparr>obj_ref = 1, user = Some \<lparr>isAnonymous = Some False\<rparr>\<rparr>,
      isPending = True\<rparr>"

definition signed_in_obs :: session_obs where
  "signed_in_obs =
     \<lparr>data = Some \<lparr>obj_ref = 1, user = Some \<lparr>isAnonymous = Some False\<rparr>\<rparr>,
      isPending = False\<rparr>"

text \<open>
  The settled configuration after the mount of a component without a path in which the
  user has typed an email and a password, and the one after the submission of this form.
\<close>

definition ready_config :: "AuthCardProps \<Rightarrow> string \<Rightarrow> string \<Rightarrow> config" where
  "ready_config pr e p =
     \<lparr>props = pr, obs = pending_obs,
      st = \<lparr>email = e, password = p, loading = False, view = initialView_of pr,
            isMagicLink = (initialView_of pr = Login
               \<and> (truthy (startWithMagicLink pr) \<or> \<not> emailPassword_of pr)),
            authToast = None\<rparr>,
      flushed = Some \<lparr>dep_sessionData = None, dep_pathname = None,
                      dep_view = initialView_of pr, dep_authToast = None\<rparr>,
      inflight = 0\<rparr>"

definition awaiting_config :: "AuthCardProps \<Rightarrow> string \<Rightarrow> string \<Rightarrow> config" where
  "awaiting_config pr e p =
     (ready_config pr e p)\<lparr>st := (st (ready_config pr e p))\<lparr>loading := True\<rparr>,
                           inflight := 1\<rparr>"

text \<open>
  The settled configuration after the backend has rejected that submission with a
  message.
\<close>

definition rejected_config ::
  "AuthCardProps \<Rightarrow> string \<Rightarrow> string \<Rightarrow> string \<Rightarrow> config" where
  "rejected_config pr e p m =
     (ready_config pr e p)
       \<lparr>st := (st (ready_config pr e p))
          \<lparr>authToast := Some \<lparr>description = m, variant = Destructive,
                                toast_action = None\<rparr>\<rparr>,
        flushed := Some \<lparr>dep_sessionData = None, dep_pathname = None,
                         dep_view = initialView_of pr,
                         dep_authToast = Some \<lparr>description = m, variant = Destructive,
                                                 toast_action = None\<rparr>\<rparr>\<rparr>"

section \<open>Properties\<close>

subsection \<open>Operation lists\<close>

lemma apply_ops_Nil [simp]: "apply_ops s [] = s"
  by (simp add: apply_ops_def)

lemma apply_ops_Cons [simp]: "apply_ops s (x # xs) = apply_ops (apply_op s x) xs"
  by (simp add: apply_ops_def)

lemma apply_ops_append [simp]: "apply_ops s (xs @ ys) = apply_ops (apply_ops s xs) ys"
  by (simp add: apply_ops_def)

lemma calls_of_append [simp]: "calls_of (xs @ ys) = calls_of xs @ calls_of ys"
  by (induction xs rule: calls_of.induct) auto

subsection \<open>Splitting a path\<close>

lemma js_split_nonempty: "js_split p \<noteq> []"
  by (induction p) (auto split: list.splits)

lemma js_split_no_slash: "CHR ''/'' \<notin> set p \<Longrightarrow> js_split p = [p]"
  by (induction p) auto

lemma js_split_slash: "CHR ''/'' \<in> set p \<Longrightarrow> tl (js_split p) \<noteq> []"
  by (induction p) (auto simp: js_split_nonempty split: list.splits)

lemma final_segment_Cons:
  "final_segment (c # cs) =
     (if CHR ''/'' \<in> set cs then final_segment cs
      else if c = CHR ''/'' then cs else c # cs)"
  by (auto simp: final_segment_def takeWhile_append takeWhile_eq_all_conv[THEN iffD2])

lemma last_js_split: "last (js_split p) = final_segment p"
proof (induction p)
  case Nil
  show ?case by (simp add: final_segment_def)
next
  case (Cons c cs)
  show ?case
  proof (cases "CHR ''/'' \<in> set cs")
    case True
    then have "tl (js_split cs) \<noteq> []" by (rule js_split_slash)
    then obtain s ss where "js_split cs = s # ss" "ss \<noteq> []"
      by (cases "js_split cs") auto
    with Cons True show ?thesis
      by (simp add: final_segment_Cons)
  next
    case False
    then have "js_split cs = [cs]" by (rule js_split_no_slash)
    with False show ?thesis by (simp add: final_segment_Cons)
  qed
qed

lemma pop_js_split: "pop (js_split p) = Some (final_segment p)"
  using js_split_nonempty[of p] last_js_split[of p] by (cases "js_split p") auto

lemma find_view_name: "find (\<lambda>v. view_name v = view_name w) authViews = Some w"
  by (cases w) (simp_all add: authViews_def)

lemma find_view_none:
  "(\<forall>v. view_name v \<noteq> s) \<Longrightarrow> find (\<lambda>v. view_name v = s) authViews = None"
  by (simp add: find_None_iff)

lemma view_name_nonempty: "view_name v \<noteq> []"
  by (cases v) simp_all

subsection \<open>What the effects write\<close>

lemma session_effect_state [simp]: "apply_ops s (session_effect pr d) = s"
  by (simp add: session_effect_def split: option.splits)

lemma authToast_effect_state [simp]: "apply_ops s (authToast_effect pr t) = s"
  by (simp add: authToast_effect_def split: option.splits)

lemma pathname_effect_cases:
  "pathname_effect pn = [] \<or> (\<exists>v. pathname_effect pn = [Upd (SetView v)])"
  by (simp add: pathname_effect_def split: option.splits)

lemma pathname_effect_state: "\<exists>v. apply_ops s (pathname_effect pn) = s\<lparr>view := v\<rparr>"
proof -
  from pathname_effect_cases[of pn] show ?thesis
  proof
    assume "pathname_effect pn = []"
    then have "apply_ops s (pathname_effect pn) = s\<lparr>view := view s\<rparr>" by simp
    then show ?thesis by blast
  next
    assume "\<exists>v. pathname_effect pn = [Upd (SetView v)]"
    then show ?thesis by auto
  qed
qed

lemma view_effect_state:
  "apply_ops s (view_effect v) = (if v \<noteq> Login then s\<lparr>isMagicLink := False\<rparr> else s)"
  by (simp add: view_effect_def)

lemma flush_loading [simp]: "loading (apply_ops (st c) (effects_of c)) = loading (st c)"
proof -
  obtain v where
    "apply_ops (st c) (pathname_effect (pathname_of (props c))) = (st c)\<lparr>view := v\<rparr>"
    using pathname_effect_state by blast
  then show ?thesis by (simp add: effects_of_def view_effect_state)
qed

lemma flush_authToast [simp]:
  "authToast (apply_ops (st c) (effects_of c)) = authToast (st c)"
proof -
  obtain v where
    "apply_ops (st c) (pathname_effect (pathname_of (props c))) = (st c)\<lparr>view := v\<rparr>"
    using pathname_effect_state by blast
  then show ?thesis by (simp add: effects_of_def view_effect_state)
qed

lemma flush_email [simp]: "email (apply_ops (st c) (effects_of c)) = email (st c)"
proof -
  obtain v where
    "apply_ops (st c) (pathname_effect (pathname_of (props c))) = (st c)\<lparr>view := v\<rparr>"
    using pathname_effect_state by blast
  then show ?thesis by (simp add: effects_of_def view_effect_state)
qed

lemma flush_password [simp]:
  "password (apply_ops (st c) (effects_of c)) = password (st c)"
proof -
  obtain v where
    "apply_ops (st c) (pathname_effect (pathname_of (props c))) = (st c)\<lparr>view := v\<rparr>"
    using pathname_effect_state by blast
  then show ?thesis by (simp add: effects_of_def view_effect_state)
qed

subsection \<open>When the form submits\<close>

lemma split_at_nonempty: "split_at d v \<noteq> []"
  by (induction v) (auto split: list.splits)

lemma valid_email_nonempty: "valid_email_address v \<Longrightarrow> v \<noteq> []"
  by (auto simp: valid_email_address_def)

lemma valid_email_example [simp]: "valid_email_address ''a@b.com''"
  by (simp add: valid_email_address_def valid_label_def is_atext_def is_alnum_def)

lemma invalid_email_example [simp]: "\<not> valid_email_address ''abc''"
  by (simp add: valid_email_address_def)

lemma can_submit_iff: "can_submit s = (\<not> loading s \<and> valid_email_address (email s))"
  using valid_email_nonempty[of "email s"]
  by (auto simp: can_submit_def submit_disabled_def blocks_submission_def
      type_mismatch_def email_input_def password_input_def)

subsection \<open>The submission invariant\<close>

lemma submission_inv_mount: "submission_inv (mount pr ob)"
  by (simp add: submission_inv_def mount_def init_state_def)

lemma submission_inv_step:
  "submission_inv c \<Longrightarrow> step c e = Some (c', cs) \<Longrightarrow> submission_inv c'"
  by (cases e)
     (auto simp: submission_inv_def flush_def handle_def onSubmit_start_def
        onSubmit_resume_def toggle_click_def toggle_onClick_def can_submit_iff
        split: if_splits option.splits)

lemma reachable_submission_inv: "reachable c \<Longrightarrow> submission_inv c"
  by (induction rule: reachable.induct)
     (auto intro: submission_inv_mount submission_inv_step)

lemma run_reachable: "reachable c \<Longrightarrow> run c es = Some (c', cs) \<Longrightarrow> reachable c'"
proof (induction es arbitrary: c cs)
  case Nil
  then show ?case by simp
next
  case (Cons e es)
  from Cons.prems(2) obtain c1 cs1 cs2 where
    s: "step c e = Some (c1, cs1)" and r: "run c1 es = Some (c', cs2)"
    by (auto split: option.splits)
  from Cons.prems(1) s have "reachable c1" by (rule reachable_step)
  then show ?case using r by (rule Cons.IH)
qed

subsection \<open>The view follows the host path\<close>

lemma pathname_effect_final_segment:
  "pathname_effect (Some p) =
     (case find (\<lambda>v. view_name v = final_segment p) authViews of
        Some v \<Rightarrow> [Upd (SetView v)]
      | None \<Rightarrow> [])"
proof (cases "p = []")
  case True
  have "find (\<lambda>v. view_name v = []) authViews = None"
    by (rule find_view_none) (simp add: view_name_nonempty)
  with True show ?thesis by (simp add: pathname_effect_def final_segment_def)
next
  case False
  then show ?thesis by (simp add: pathname_effect_def pop_js_split)
qed

lemma flush_view:
  "view (apply_ops (st c) (effects_of c)) =
     view (apply_ops (st c)
       (if dep_changed c dep_pathname then pathname_effect (pathname_of (props c)) else []))"
  by (simp add: effects_of_def view_effect_state)

text \<open>
  C1. When the host path has changed (or the component has just mounted), running the
  effects sets the view to the view whose name is the final segment of the path, the
  text after its last slash. When the final segment names no view, and when there is no
  path, the view stays what it was. The effects are total: nothing is raised.
\<close>

theorem path_change_resolves_view:
  assumes "dep_changed c dep_pathname"
  shows "(pathname_of (props c) = Some p \<and> final_segment p = view_name v
            \<longrightarrow> view (st (fst (flush c))) = v)
       \<and> (pathname_of (props c) = Some p \<and> (\<forall>w. final_segment p \<noteq> view_name w)
            \<longrightarrow> view (st (fst (flush c))) = view (st c))
       \<and> (pathname_of (props c) = None \<longrightarrow> view (st (fst (flush c))) = view (st c))"
proof (intro conjI impI)
  assume "pathname_of (props c) = Some p \<and> final_segment p = view_name v"
  with assms show "view (st (fst (flush c))) = v"
    by (simp add: flush_def flush_view pathname_effect_final_segment
          find_view_name[simplified])
next
  assume "pathname_of (props c) = Some p \<and> (\<forall>w. final_segment p \<noteq> view_name w)"
  then have "pathname_of (props c) = Some p"
    and "find (\<lambda>v. view_name v = final_segment p) authViews = None"
    by (simp_all add: find_None_iff) metis
  then show "view (st (fst (flush c))) = view (st c)"
    by (simp add: flush_def flush_view pathname_effect_final_segment)
next
  assume "pathname_of (props c) = None"
  then show "view (st (fst (flush c))) = view (st c)"
    by (simp add: flush_def flush_view pathname_effect_def)
qed

theorem path_change_resolves_view_witness:
  "dep_changed (mount (default_props\<lparr>pathname := Some ''/auth/signup''\<rparr>) pending_obs)
     dep_pathname
   \<and> pathname_of (props (mount (default_props\<lparr>pathname := Some ''/auth/signup''\<rparr>)
        pending_obs)) = Some ''/auth/signup''
   \<and> final_segment ''/auth/signup'' = view_name Signup
   \<and> view (st (mount (default_props\<lparr>pathname := Some ''/auth/signup''\<rparr>) pending_obs))
       = Login
   \<and> view (st (fst (flush
        (mount (default_props\<lparr>pathname := Some ''/auth/signup''\<rparr>) pending_obs))))
       = Signup"
proof -
  let ?c = "mount (default_props\<lparr>pathname := Some ''/auth/signup''\<rparr>) pending_obs"
  have d: "dep_changed ?c dep_pathname"
    by (simp add: dep_changed_def mount_def)
  have p: "pathname_of (props ?c) = Some ''/auth/signup''"
    by (simp add: mount_def pathname_of_def default_props_def)
  have f: "final_segment ''/auth/signup'' = view_name Signup"
    by (simp add: final_segment_def)
  have i: "view (st ?c) = Login"
    by (simp add: mount_def init_state_def initialView_of_def default_props_def)
  from path_change_resolves_view[OF d, of "''/auth/signup''" Signup] p f
  have "view (st (fst (flush ?c))) = Signup" by blast
  with d p f i show ?thesis by blast
qed

subsection \<open>The magic-link mode belongs to the login view\<close>

lemma flush_isMagicLink:
  "isMagicLink (apply_ops (st c) (effects_of c)) =
     (if dep_changed c dep_view \<and> view (st c) \<noteq> Login then False else isMagicLink (st c))"
proof -
  obtain v where
    "apply_ops (st c) (pathname_effect (pathname_of (props c))) = (st c)\<lparr>view := v\<rparr>"
    using pathname_effect_state by blast
  then show ?thesis by (simp add: effects_of_def view_effect_state)
qed

lemma settled_dep_unchanged: "settled c \<Longrightarrow> \<not> dep_changed c f"
  by (simp add: settled_def dep_changed_def)

lemma settled_effects: "settled c \<Longrightarrow> effects_of c = []"
  by (simp add: effects_of_def settled_dep_unchanged)

lemma magic_inv_mount: "magic_inv (mount pr ob)"
  by (simp add: magic_inv_def mount_def dep_changed_def)

lemma magic_inv_flush: "magic_inv c \<Longrightarrow> magic_inv (fst (flush c))"
  by (auto simp: magic_inv_def flush_def dep_changed_def deps_of_def flush_isMagicLink
      split: option.splits)

lemma magic_inv_step:
  assumes "magic_inv c" and "step c e = Some (c', cs)"
  shows "magic_inv c'"
proof (cases e)
  case Flush
  with assms show ?thesis
    using magic_inv_flush[of c] by (auto split: if_splits)
next
  case (Rerender pr)
  with assms show ?thesis
    by (auto simp: magic_inv_def settled_def dep_changed_def deps_of_def split: if_splits)
next
  case (SessionUpdate ob)
  with assms show ?thesis
    by (auto simp: magic_inv_def settled_def dep_changed_def deps_of_def split: if_splits)
next
  case (ChangeEmail v)
  with assms show ?thesis
    by (auto simp: magic_inv_def settled_def dep_changed_def deps_of_def handle_def
        split: if_splits)
next
  case (ChangePassword v)
  with assms show ?thesis
    by (auto simp: magic_inv_def settled_def dep_changed_def deps_of_def handle_def
        split: if_splits)
next
  case Submit
  with assms show ?thesis
    by (auto simp: magic_inv_def settled_def dep_changed_def deps_of_def handle_def
        onSubmit_start_def split: if_splits)
next
  case (Respond r)
  with assms show ?thesis
    by (auto simp: magic_inv_def settled_def dep_changed_def deps_of_def handle_def
        onSubmit_resume_def split: if_splits option.splits)
next
  case ClickMagicLink
  with assms show ?thesis
    by (auto simp: magic_inv_def settled_def dep_changed_def deps_of_def handle_def
        magicLink_button_disabled_def split: if_splits)
next
  case ClickPasswordProvider
  with assms show ?thesis
    by (auto simp: magic_inv_def settled_def dep_changed_def deps_of_def handle_def
        split: if_splits)
next
  case ClickToggle
  with assms show ?thesis
    by (auto simp: magic_inv_def settled_def dep_changed_def deps_of_def handle_def
        toggle_click_def toggle_onClick_def split: if_splits)
qed

lemma reachable_magic_inv: "reachable c \<Longrightarrow> magic_inv c"
  by (induction rule: reachable.induct) (auto intro: magic_inv_mount magic_inv_step)

lemma flush_twice_settled: "settled (fst (flush (fst (flush c))))"
proof -
  let ?c1 = "fst (flush c)"
  have f: "flushed ?c1 = Some (deps_of c)" by (simp add: flush_def)
  have p: "props ?c1 = props c" "obs ?c1 = obs c" by (simp_all add: flush_def)
  have a: "authToast (st ?c1) = authToast (st c)" by (simp add: flush_def)
  have s: "\<not> dep_changed ?c1 dep_sessionData" "\<not> dep_changed ?c1 dep_pathname"
    "\<not> dep_changed ?c1 dep_authToast"
    using f p a by (simp_all add: dep_changed_def deps_of_def)
  then have e: "effects_of ?c1 =
      (if dep_changed ?c1 dep_view then view_effect (view (st ?c1)) else [])"
    by (simp add: effects_of_def)
  have "view (apply_ops (st ?c1) (effects_of ?c1)) = view (st ?c1)"
    and "authToast (apply_ops (st ?c1) (effects_of ?c1)) = authToast (st ?c1)"
    by (simp_all add: e view_effect_state)
  then show ?thesis
    by (simp add: settled_def flush_def[of ?c1] deps_of_def)
qed

text \<open>
  C2. In every settled configuration that can be reached (a render all of whose
  effects have run), the magic-link mode is off unless the view is login. Two rounds of
  effects settle any configuration, and the configuration they settle satisfies the
  same.
\<close>

theorem magic_link_off_outside_login:
  assumes "reachable c"
  shows "(settled c \<and> view (st c) \<noteq> Login \<longrightarrow> \<not> isMagicLink (st c))
       \<and> settled (fst (flush (fst (flush c))))
       \<and> (view (st (fst (flush (fst (flush c))))) \<noteq> Login
            \<longrightarrow> \<not> isMagicLink (st (fst (flush (fst (flush c))))))"
proof (intro conjI impI)
  from assms have m: "magic_inv c" by (rule reachable_magic_inv)
  {
    assume "settled c \<and> view (st c) \<noteq> Login"
    with m show "\<not> isMagicLink (st c)"
      by (auto simp: magic_inv_def settled_dep_unchanged)
  }
  show s: "settled (fst (flush (fst (flush c))))" by (rule flush_twice_settled)
  from m have "magic_inv (fst (flush (fst (flush c))))"
    by (intro magic_inv_flush)
  moreover assume "view (st (fst (flush (fst (flush c))))) \<noteq> Login"
  ultimately show "\<not> isMagicLink (st (fst (flush (fst (flush c)))))"
    using s by (auto simp: magic_inv_def settled_dep_unchanged)
qed

text \<open>
  The first render itself need not satisfy it: mounted with the initial view signup
  and \<^verbatim>\<open>startWithMagicLink\<close>, the component renders signup with the mode on, and
  only the view effect that follows this render turns it off.
\<close>

theorem magic_link_on_outside_login_counterexample:
  "reachable (mount (default_props\<lparr>initialView := Some Signup,
       startWithMagicLink := Some True\<rparr>) pending_obs)
   \<and> view (st (mount (default_props\<lparr>initialView := Some Signup,
       startWithMagicLink := Some True\<rparr>) pending_obs)) = Signup
   \<and> isMagicLink (st (mount (default_props\<lparr>initialView := Some Signup,
       startWithMagicLink := Some True\<rparr>) pending_obs))"
  by (simp add: reachable_mount)
     (simp add: mount_def init_state_def initialView_of_def default_props_def)

theorem magic_link_off_outside_login_witness:
  "reachable (fst (flush (mount (default_props\<lparr>initialView := Some Signup,
       startWithMagicLink := Some True\<rparr>) pending_obs)))
   \<and> settled (fst (flush (mount (default_props\<lparr>initialView := Some Signup,
       startWithMagicLink := Some True\<rparr>) pending_obs)))
   \<and> view (st (fst (flush (mount (default_props\<lparr>initialView := Some Signup,
       startWithMagicLink := Some True\<rparr>) pending_obs)))) = Signup
   \<and> \<not> isMagicLink (st (fst (flush (mount (default_props\<lparr>initialView := Some Signup,
       startWithMagicLink := Some True\<rparr>) pending_obs))))"
proof -
  let ?m = "mount (default_props\<lparr>initialView := Some Signup,
       startWithMagicLink := Some True\<rparr>) pending_obs"
  let ?c = "fst (flush ?m)"
  have u: "\<not> settled ?m" by (simp add: settled_def mount_def)
  then have "step ?m Flush = Some (?c, snd (flush ?m))" by simp
  with reachable_mount have r: "reachable ?c" by (rule reachable_step)
  have e: "effects_of ?m = [Upd (SetIsMagicLink False)]"
    by (simp add: effects_of_def dep_changed_def mount_def init_state_def
        initialView_of_def default_props_def pending_obs_def session_effect_def
        pathname_of_def pathname_effect_def view_effect_def authToast_effect_def)
  have v: "view (st ?c) = Signup"
    by (simp add: flush_def e) (simp add: mount_def init_state_def initialView_of_def
        default_props_def)
  have s: "settled ?c"
    by (simp add: settled_def flush_def e deps_of_def)
  from magic_link_off_outside_login[OF r] s v
  have "\<not> isMagicLink (st ?c)" by simp
  with r s v show ?thesis by blast
qed

subsection \<open>The calls of the effects and handlers\<close>

lemma session_effect_only_navigates:
  "filter is_navigate (calls_of (session_effect pr d)) = calls_of (session_effect pr d)"
  by (simp add: session_effect_def split: option.splits)

lemma pathname_effect_calls [simp]: "calls_of (pathname_effect pn) = []"
  using pathname_effect_cases[of pn] by auto

lemma view_effect_calls [simp]: "calls_of (view_effect v) = []"
  by (simp add: view_effect_def)

lemma authToast_effect_no_navigate [simp]:
  "filter is_navigate (calls_of (authToast_effect pr t)) = []"
  by (simp add: authToast_effect_def split: option.splits)

lemma flush_navigate:
  "filter is_navigate (snd (flush c)) =
     (if dep_changed c dep_sessionData
      then calls_of (session_effect (props c) (data (obs c))) else [])"
  by (simp add: flush_def effects_of_def session_effect_only_navigates)

lemma handler_no_navigate:
  "filter is_navigate (calls_of (onSubmit_start s)) = []"
  "filter is_navigate (calls_of (onSubmit_resume r)) = []"
  "filter is_navigate (calls_of (toggle_click pr s)) = []"
  by (simp_all add: onSubmit_start_def onSubmit_resume_def toggle_click_def
      toggle_onClick_def split: option.splits)

subsection \<open>Reaching the example configurations\<close>

lemma mount_flush:
  assumes "pathname_of pr = None"
  shows "step (mount pr pending_obs) Flush = Some (ready_config pr [] [], [])"
proof -
  let ?m = "mount pr pending_obs"
  have u: "\<not> settled ?m" by (simp add: settled_def mount_def)
  have e: "effects_of ?m = view_effect (initialView_of pr)"
    using assms
    by (simp add: effects_of_def dep_changed_def mount_def pending_obs_def
        session_effect_def pathname_effect_def authToast_effect_def init_state_def)
  have "flush ?m = (ready_config pr [] [], [])"
    using assms
    by (simp add: flush_def e view_effect_state)
       (simp add: mount_def ready_config_def init_state_def deps_of_def pending_obs_def)
  with u show ?thesis by simp
qed

lemma ready_config_settled: "pathname_of pr = None \<Longrightarrow> settled (ready_config pr e p)"
  by (simp add: settled_def ready_config_def deps_of_def pending_obs_def)

lemma awaiting_config_settled:
  "pathname_of pr = None \<Longrightarrow> settled (awaiting_config pr e p)"
  by (simp add: settled_def awaiting_config_def ready_config_def deps_of_def
      pending_obs_def)

lemma ready_config_email:
  assumes "pathname_of pr = None"
  shows "step (ready_config pr [] []) (ChangeEmail e) = Some (ready_config pr e [], [])"
  using ready_config_settled[OF assms, of "[]" "[]"]
  by (simp add: handle_def) (simp add: ready_config_def)

lemma ready_config_password:
  assumes "pathname_of pr = None" and "\<not> isMagicLink (st (ready_config pr e []))"
  shows "step (ready_config pr e []) (ChangePassword p) = Some (ready_config pr e p, [])"
  using ready_config_settled[OF assms(1), of e "[]"] assms(2)
  by (simp add: handle_def password_input_def) (simp add: ready_config_def)

lemma ready_config_reachable:
  assumes "pathname_of pr = None" and "p = [] \<or> \<not> isMagicLink (st (ready_config pr e []))"
  shows "reachable (ready_config pr e p)"
proof -
  have "reachable (ready_config pr [] [])"
    using reachable_mount mount_flush[OF assms(1)] by (rule reachable_step)
  then have r: "reachable (ready_config pr e [])"
    using ready_config_email[OF assms(1)] by (rule reachable_step)
  show ?thesis
  proof (cases "p = []")
    case True
    with r show ?thesis by simp
  next
    case False
    with assms(2) have "\<not> isMagicLink (st (ready_config pr e []))" by simp
    with r ready_config_password[OF assms(1)] show ?thesis
      by (blast intro: reachable_step)
  qed
qed

lemma ready_config_submit:
  assumes "pathname_of pr = None" and "valid_email_address e"
  shows "step (ready_config pr e p) Submit
           = Some (awaiting_config pr e p, [Backend (SignInEmail e p)])"
  using ready_config_settled[OF assms(1), of e p] assms(2)
  by (simp add: handle_def can_submit_iff onSubmit_start_def)
     (simp add: ready_config_def awaiting_config_def)

lemma awaiting_config_reachable:
  assumes "pathname_of pr = None" and "valid_email_address e"
    and "p = [] \<or> \<not> isMagicLink (st (ready_config pr e []))"
  shows "reachable (awaiting_config pr e p)"
  using ready_config_reachable[OF assms(1,3)] ready_config_submit[OF assms(1,2)]
  by (rule reachable_step)

lemma default_props_simps [simp]:
  "pathname_of default_props = None"
  "initialView_of default_props = Login"
  "emailPassword_of default_props = True"
  "startWithMagicLink default_props = None"
  by (simp_all add: default_props_def pathname_of_def initialView_of_def
      emailPassword_of_def)

subsection \<open>Navigation on a session\<close>

lemma flush_navigate_isPending:
  "filter is_navigate (snd (flush (c\<lparr>obs := (obs c)\<lparr>isPending := b\<rparr>\<rparr>)))
     = filter is_navigate (snd (flush c))"
  by (simp add: flush_navigate dep_changed_def deps_of_def split: option.splits)

lemma step_navigate:
  assumes "step c e = Some (c', cs)"
  shows "filter is_navigate cs =
          (if e = Flush \<and> dep_changed c dep_sessionData
              \<and> (\<exists>s. data (obs c) = Some s
                    \<and> (\<forall>u. user s = Some u \<longrightarrow> isAnonymous u \<noteq> Some True))
           then [Navigate (navigate_of (props c)) ''/'']
           else [])
       \<and> (e = Flush \<longrightarrow> \<not> dep_changed c' dep_sessionData)"
proof (cases e)
  case Flush
  with assms have c': "c' = fst (flush c)" and cs: "cs = snd (flush c)"
    by (auto split: if_splits)
  have 1: "\<not> dep_changed c' dep_sessionData"
    by (simp add: c' flush_def dep_changed_def deps_of_def)
  have 2: "calls_of (session_effect (props c) (data (obs c))) =
     (if (\<exists>s. data (obs c) = Some s
              \<and> (\<forall>u. user s = Some u \<longrightarrow> isAnonymous u \<noteq> Some True))
      then [Navigate (navigate_of (props c)) ''/''] else [])"
  proof (cases "data (obs c)")
    case None
    then show ?thesis by (simp add: session_effect_def)
  next
    case (Some s)
    show ?thesis
    proof (cases "user s")
      case None
      with Some show ?thesis by (simp add: session_effect_def)
    next
      case (Some u)
      with \<open>data (obs c) = Some s\<close> show ?thesis
        by (cases "isAnonymous u") (auto simp: session_effect_def)
    qed
  qed
  from 1 2 Flush show ?thesis
    by (simp add: cs flush_navigate)
next
  case (Rerender pr)
  with assms show ?thesis by (auto split: if_splits)
next
  case (SessionUpdate ob)
  with assms show ?thesis by (auto split: if_splits)
next
  case (ChangeEmail v)
  with assms show ?thesis by (auto simp: handle_def split: if_splits)
next
  case (ChangePassword v)
  with assms show ?thesis by (auto simp: handle_def split: if_splits)
next
  case Submit
  with assms show ?thesis
    by (auto simp: handle_def handler_no_navigate split: if_splits)
next
  case (Respond r)
  with assms show ?thesis
    by (auto simp: handle_def handler_no_navigate split: if_splits)
next
  case ClickMagicLink
  with assms show ?thesis by (auto simp: handle_def split: if_splits)
next
  case ClickPasswordProvider
  with assms show ?thesis by (auto simp: handle_def split: if_splits)
next
  case ClickToggle
  with assms show ?thesis
    by (auto simp: handle_def handler_no_navigate split: if_splits)
qed

text \<open>
  C3. Of all the things that can happen to the component, only a run of the effects
  calls the navigation function, and it does so exactly when the session data is not
  the data the effects last ran with (or they have not run yet), is present, and its
  user is not flagged anonymous: then with one call, to the path \<open>/\<close>, of the host's
  function when the host passed one. Without session data, and with an anonymous
  user, there is no call. The \<^verbatim>\<open>isPending\<close> flag of the observation is not read: it
  changes nothing about the call. Once the effects have run, the session effect does
  not run again for the same data.
\<close>

theorem session_navigation:
  assumes "step c e = Some (c', cs)"
  shows "filter is_navigate cs =
          (if e = Flush \<and> dep_changed c dep_sessionData
              \<and> (\<exists>s. data (obs c) = Some s
                    \<and> (\<forall>u. user s = Some u \<longrightarrow> isAnonymous u \<noteq> Some True))
           then [Navigate (navigate_of (props c)) ''/'']
           else [])
       \<and> (e = Flush \<longrightarrow> \<not> dep_changed c' dep_sessionData)
       \<and> (data (obs c) = None \<longrightarrow> filter is_navigate cs = [])
       \<and> (navigate (props c) \<longrightarrow> navigate_of (props c) = HostNavigate)
       \<and> filter is_navigate (snd (flush (c\<lparr>obs := (obs c)\<lparr>isPending := b\<rparr>\<rparr>)))
           = filter is_navigate (snd (flush c))"
proof -
  note n = step_navigate[OF assms]
  from n have "data (obs c) = None \<longrightarrow> filter is_navigate cs = []" by simp
  moreover have "navigate (props c) \<longrightarrow> navigate_of (props c) = HostNavigate"
    by (simp add: navigate_of_def)
  ultimately show ?thesis
    using n flush_navigate_isPending[where c = c and b = b] by blast
qed

text \<open>
  A session of a user who is not anonymous, observed while the observation is still
  flagged pending: the effects navigate.
\<close>

theorem pending_session_navigates_counterexample:
  "isPending (obs ((ready_config (default_props\<lparr>navigate := True\<rparr>) [] [])
      \<lparr>obs := pending_signed_in_obs\<rparr>))
   \<and> reachable ((ready_config (default_props\<lparr>navigate := True\<rparr>) [] [])
      \<lparr>obs := pending_signed_in_obs\<rparr>)
   \<and> step ((ready_config (default_props\<lparr>navigate := True\<rparr>) [] [])
        \<lparr>obs := pending_signed_in_obs\<rparr>) Flush
      = Some (flush ((ready_config (default_props\<lparr>navigate := True\<rparr>) [] [])
          \<lparr>obs := pending_signed_in_obs\<rparr>))
   \<and> snd (flush ((ready_config (default_props\<lparr>navigate := True\<rparr>) [] [])
        \<lparr>obs := pending_signed_in_obs\<rparr>))
      = [Navigate HostNavigate ''/'']"
proof -
  let ?pr = "default_props\<lparr>navigate := True\<rparr>"
  let ?r = "ready_config ?pr [] []"
  let ?c = "?r\<lparr>obs := pending_signed_in_obs\<rparr>"
  have p: "pathname_of ?pr = None" by (simp add: pathname_of_def default_props_def)
  have i: "isPending (obs ?c)" by (simp add: pending_signed_in_obs_def)
  have "reachable ?r" using p by (rule ready_config_reachable) simp
  moreover have "step ?r (SessionUpdate pending_signed_in_obs) = Some (?c, [])"
    using ready_config_settled[OF p, of "[]" "[]"] by simp
  ultimately have r: "reachable ?c" by (rule reachable_step)
  have u: "\<not> settled ?c"
    by (simp add: settled_def deps_of_def ready_config_def pending_signed_in_obs_def)
  have f: "snd (flush ?c) = [Navigate HostNavigate ''/'']"
    using p
    by (simp add: flush_def effects_of_def dep_changed_def deps_of_def ready_config_def
        pending_signed_in_obs_def session_effect_def navigate_of_def default_props_def)
  from i r u f show ?thesis by simp
qed

theorem session_navigation_witness:
  "step (mount (default_props\<lparr>navigate := True\<rparr>) pending_obs) Flush
     = Some (ready_config (default_props\<lparr>navigate := True\<rparr>) [] [], [])
   \<and> step (ready_config (default_props\<lparr>navigate := True\<rparr>) [] [])
        (SessionUpdate signed_in_obs)
      = Some ((ready_config (default_props\<lparr>navigate := True\<rparr>) [] [])
                \<lparr>obs := signed_in_obs\<rparr>, [])
   \<and> step ((ready_config (default_props\<lparr>navigate := True\<rparr>) [] [])
        \<lparr>obs := signed_in_obs\<rparr>) Flush
      = Some (flush ((ready_config (default_props\<lparr>navigate := True\<rparr>) [] [])
          \<lparr>obs := signed_in_obs\<rparr>))
   \<and> dep_changed ((ready_config (default_props\<lparr>navigate := True\<rparr>) [] [])
        \<lparr>obs := signed_in_obs\<rparr>) dep_sessionData
   \<and> navigate (props ((ready_config (default_props\<lparr>navigate := True\<rparr>) [] [])
        \<lparr>obs := signed_in_obs\<rparr>))
   \<and> filter is_navigate (snd (flush
        ((ready_config (default_props\<lparr>navigate := True\<rparr>) [] [])
          \<lparr>obs := signed_in_obs\<rparr>)))
      = [Navigate HostNavigate ''/'']
   \<and> \<not> dep_changed (fst (flush
        ((ready_config (default_props\<lparr>navigate := True\<rparr>) [] [])
          \<lparr>obs := signed_in_obs\<rparr>))) dep_sessionData"
proof -
  let ?pr = "default_props\<lparr>navigate := True\<rparr>"
  let ?r = "ready_config ?pr [] []"
  let ?c = "?r\<lparr>obs := signed_in_obs\<rparr>"
  have p: "pathname_of ?pr = None" by (simp add: pathname_of_def default_props_def)
  have m: "step (mount ?pr pending_obs) Flush = Some (?r, [])"
    using p by (rule mount_flush)
  have u: "step ?r (SessionUpdate signed_in_obs) = Some (?c, [])"
    using ready_config_settled[OF p, of "[]" "[]"] by simp
  have s: "step ?c Flush = Some (fst (flush ?c), snd (flush ?c))"
    by (simp add: settled_def deps_of_def ready_config_def signed_in_obs_def)
  have d: "dep_changed ?c dep_sessionData"
    by (simp add: dep_changed_def deps_of_def ready_config_def signed_in_obs_def)
  have x: "\<exists>s. data (obs ?c) = Some s
      \<and> (\<forall>u. user s = Some u \<longrightarrow> isAnonymous u \<noteq> Some True)"
    by (simp add: signed_in_obs_def)
  have h: "navigate (props ?c)" by (simp add: ready_config_def)
  note t = session_navigation[OF s, where b = False]
  from t d x have 1: "filter is_navigate (snd (flush ?c))
      = [Navigate (navigate_of (props ?c)) ''/'']" by simp
  from t h have 2: "navigate_of (props ?c) = HostNavigate" by blast
  from t have 3: "\<not> dep_changed (fst (flush ?c)) dep_sessionData" by blast
  from m u s d h 1 2 3 show ?thesis by simp
qed

subsection \<open>The answer to a submission\<close>

text \<open>
  C4. When the answer to a submission arrives, the handler first clears the in-flight
  flag and only then, if the answer carries an error with a non-empty message, sets the
  notification to that message with the destructive (error) variant. With any other
  answer it writes nothing more, and the notification is still empty, as it has been
  since the submission started.
\<close>

theorem response_clears_loading_then_notifies:
  assumes "reachable c" and "step c (Respond r) = Some (c', cs)"
  shows "\<not> loading (st c') \<and> cs = []
       \<and> (error r = Some e \<and> message e = Some m \<and> m \<noteq> [] \<longrightarrow>
            onSubmit_resume r =
              [Upd (SetLoading False),
               Upd (SetAuthToast (Some \<lparr>description = m, variant = Destructive,
                                        toast_action = None\<rparr>))]
            \<and> authToast (st c') =
                Some \<lparr>description = m, variant = Destructive, toast_action = None\<rparr>)
       \<and> (error r = None
            \<or> (\<exists>b. error r = Some b \<and> (message b = None \<or> message b = Some [])) \<longrightarrow>
            onSubmit_resume r = [Upd (SetLoading False)] \<and> authToast (st c') = None)"
proof -
  from assms(1) have "submission_inv c" by (rule reachable_submission_inv)
  moreover from assms(2) have "0 < inflight c"
    and c': "c' = fst (handle (c\<lparr>inflight := inflight c - 1\<rparr>) (onSubmit_resume r))"
    and cs: "cs = snd (handle (c\<lparr>inflight := inflight c - 1\<rparr>) (onSubmit_resume r))"
    by (auto split: if_splits)
  ultimately have n: "authToast (st c) = None"
    by (auto simp: submission_inv_def)
  show ?thesis
  proof (intro conjI impI)
    show "\<not> loading (st c')"
      by (simp add: c' handle_def onSubmit_resume_def split: option.splits)
    show "cs = []"
      by (simp add: cs handle_def onSubmit_resume_def split: option.splits)
  next
    assume a: "error r = Some e \<and> message e = Some m \<and> m \<noteq> []"
    then show "onSubmit_resume r =
              [Upd (SetLoading False),
               Upd (SetAuthToast (Some \<lparr>description = m, variant = Destructive,
                                        toast_action = None\<rparr>))]"
      by (simp add: onSubmit_resume_def)
    from a show "authToast (st c') =
        Some \<lparr>description = m, variant = Destructive, toast_action = None\<rparr>"
      by (simp add: c' handle_def onSubmit_resume_def)
  next
    assume a: "error r = None
       \<or> (\<exists>b. error r = Some b \<and> (message b = None \<or> message b = Some []))"
    then show "onSubmit_resume r = [Upd (SetLoading False)]"
      by (auto simp: onSubmit_resume_def)
    then show "authToast (st c') = None"
      using n by (simp add: c' handle_def)
  qed
qed

theorem response_clears_loading_then_notifies_witness:
  "reachable (awaiting_config default_props ''a@b.com'' ''x'')
   \<and> loading (st (awaiting_config default_props ''a@b.com'' ''x''))
   \<and> step (awaiting_config default_props ''a@b.com'' ''x'')
        (Respond \<lparr>error = Some \<lparr>message = Some ''Invalid credentials''\<rparr>\<rparr>)
      = Some (handle ((awaiting_config default_props ''a@b.com'' ''x'')\<lparr>inflight := 0\<rparr>)
          (onSubmit_resume \<lparr>error = Some \<lparr>message = Some ''Invalid credentials''\<rparr>\<rparr>))
   \<and> \<not> loading (st (fst (handle
          ((awaiting_config default_props ''a@b.com'' ''x'')\<lparr>inflight := 0\<rparr>)
          (onSubmit_resume \<lparr>error = Some \<lparr>message = Some ''Invalid credentials''\<rparr>\<rparr>))))
   \<and> authToast (st (fst (handle
          ((awaiting_config default_props ''a@b.com'' ''x'')\<lparr>inflight := 0\<rparr>)
          (onSubmit_resume \<lparr>error = Some \<lparr>message = Some ''Invalid credentials''\<rparr>\<rparr>))))
      = Some \<lparr>description = ''Invalid credentials'', variant = Destructive,
              toast_action = None\<rparr>"
proof -
  let ?c = "awaiting_config default_props ''a@b.com'' ''x''"
  let ?r = "\<lparr>error = Some \<lparr>message = Some ''Invalid credentials''\<rparr>\<rparr>"
  let ?h = "handle (?c\<lparr>inflight := 0\<rparr>) (onSubmit_resume ?r)"
  have r: "reachable ?c"
    by (rule awaiting_config_reachable) (simp_all add: ready_config_def)
  have l: "loading (st ?c)" by (simp add: awaiting_config_def)
  have s: "step ?c (Respond ?r) = Some (fst ?h, snd ?h)"
    using awaiting_config_settled[of default_props "''a@b.com''" "''x''"]
    by (simp add: awaiting_config_def)
  have pre: "error ?r = Some \<lparr>message = Some ''Invalid credentials''\<rparr>
      \<and> message \<lparr>message = Some ''Invalid credentials''\<rparr> = Some ''Invalid credentials''
      \<and> ''Invalid credentials'' \<noteq> []"
    by simp
  note t = response_clears_loading_then_notifies[OF r s,
      of "\<lparr>message = Some ''Invalid credentials''\<rparr>" "''Invalid credentials''"]
  from t have "\<not> loading (st (fst ?h))" by (rule conjunct1)
  moreover from t pre have "authToast (st (fst ?h)) =
      Some \<lparr>description = ''Invalid credentials'', variant = Destructive,
            toast_action = None\<rparr>"
    by blast
  ultimately have "\<not> loading (st (fst ?h))"
    and "authToast (st (fst ?h)) = Some \<lparr>description = ''Invalid credentials'',
           variant = Destructive, toast_action = None\<rparr>"
    by blast+
  with r l s show ?thesis by simp
qed

lemma awaiting_config_respond:
  assumes "pathname_of pr = None" and "m \<noteq> []"
  shows "step (awaiting_config pr e p) (Respond \<lparr>error = Some \<lparr>message = Some m\<rparr>\<rparr>)
           = Some ((rejected_config pr e p m)\<lparr>flushed := flushed (ready_config pr e p)\<rparr>, [])"
  using awaiting_config_settled[OF assms(1), of e p] assms(2)
  by (simp add: handle_def onSubmit_resume_def)
     (simp add: awaiting_config_def ready_config_def rejected_config_def)

lemma rejected_config_flush:
  assumes "pathname_of pr = None"
  shows "step ((rejected_config pr e p m)\<lparr>flushed := flushed (ready_config pr e p)\<rparr>) Flush
           = Some (rejected_config pr e p m,
                   if toast pr then [Toast \<lparr>description = m, variant = Destructive,
                                            toast_action = None\<rparr>] else [])"
proof -
  let ?c = "(rejected_config pr e p m)\<lparr>flushed := flushed (ready_config pr e p)\<rparr>"
  have u: "\<not> settled ?c"
    by (simp add: settled_def rejected_config_def ready_config_def deps_of_def)
  have e: "effects_of ?c = authToast_effect pr (authToast (st ?c))"
    using assms
    by (simp add: effects_of_def dep_changed_def deps_of_def rejected_config_def
        ready_config_def pending_obs_def)
  have f: "flush ?c =
      (?c\<lparr>st := apply_ops (st ?c) (authToast_effect pr (authToast (st ?c))),
           flushed := Some (deps_of ?c)\<rparr>,
       calls_of (authToast_effect pr (authToast (st ?c))))"
    by (simp add: flush_def e)
  have "flush ?c = (rejected_config pr e p m,
      if toast pr then [Toast \<lparr>description = m, variant = Destructive,
                               toast_action = None\<rparr>] else [])"
    using assms
    by (simp add: f)
       (simp add: deps_of_def rejected_config_def ready_config_def pending_obs_def
          authToast_effect_def)
  with u show ?thesis by simp
qed

lemma rejected_config_reachable:
  assumes "pathname_of pr = None" and "valid_email_address e" and "m \<noteq> []"
    and "p = [] \<or> \<not> isMagicLink (st (ready_config pr e []))"
  shows "reachable (rejected_config pr e p m)"
proof -
  have "reachable (awaiting_config pr e p)"
    using assms(1,2,4) by (rule awaiting_config_reachable)
  then have "reachable ((rejected_config pr e p m)\<lparr>flushed := flushed (ready_config pr e p)\<rparr>)"
    using awaiting_config_respond[OF assms(1,3)] by (rule reachable_step)
  then show ?thesis
    using rejected_config_flush[OF assms(1)] by (rule reachable_step)
qed

lemma rejected_config_settled:
  "pathname_of pr = None \<Longrightarrow> settled (rejected_config pr e p m)"
  by (simp add: settled_def rejected_config_def ready_config_def deps_of_def
      pending_obs_def)

subsection \<open>The start of a submission\<close>

text \<open>
  C5. The submit handler first clears the notification, then sets the in-flight flag,
  then calls the backend. The configuration it leaves has no notification and one
  unanswered request; and every configuration that can be reached with an unanswered
  request has no notification and the in-flight flag set: the notification is empty
  from the start of a submission until its answer.
\<close>

theorem submit_clears_notification_first:
  assumes "reachable c"
  shows "onSubmit_start (st c) =
           [Upd (SetAuthToast None), Upd (SetLoading True),
            Call (Backend (SignInEmail (email (st c)) (password (st c))))]
       \<and> (step c Submit = Some (c', cs) \<longrightarrow>
            authToast (st c') = None \<and> loading (st c') \<and> inflight c' = 1)
       \<and> (0 < inflight c \<longrightarrow> authToast (st c) = None \<and> loading (st c))"
proof -
  from assms have i: "submission_inv c" by (rule reachable_submission_inv)
  have 1: "step c Submit = Some (c', cs) \<longrightarrow>
            authToast (st c') = None \<and> loading (st c') \<and> inflight c' = 1"
    using i
    by (auto simp: submission_inv_def handle_def onSubmit_start_def can_submit_iff
        split: if_splits)
  have 2: "0 < inflight c \<longrightarrow> authToast (st c) = None \<and> loading (st c)"
    using i by (auto simp: submission_inv_def)
  from 1 2 show ?thesis by (simp add: onSubmit_start_def)
qed

theorem submit_clears_notification_first_witness:
  "reachable (rejected_config default_props ''a@b.com'' ''x'' ''Invalid credentials'')
   \<and> authToast (st (rejected_config default_props ''a@b.com'' ''x''
        ''Invalid credentials'')) \<noteq> None
   \<and> step (rejected_config default_props ''a@b.com'' ''x'' ''Invalid credentials'') Submit
      = Some (handle
          ((rejected_config default_props ''a@b.com'' ''x'' ''Invalid credentials'')
             \<lparr>inflight := Suc 0\<rparr>)
          (onSubmit_start (st (rejected_config default_props ''a@b.com'' ''x''
             ''Invalid credentials''))))
   \<and> authToast (st (fst (handle
          ((rejected_config default_props ''a@b.com'' ''x'' ''Invalid credentials'')
             \<lparr>inflight := Suc 0\<rparr>)
          (onSubmit_start (st (rejected_config default_props ''a@b.com'' ''x''
             ''Invalid credentials'')))))) = None
   \<and> loading (st (fst (handle
          ((rejected_config default_props ''a@b.com'' ''x'' ''Invalid credentials'')
             \<lparr>inflight := Suc 0\<rparr>)
          (onSubmit_start (st (rejected_config default_props ''a@b.com'' ''x''
             ''Invalid credentials''))))))"
proof -
  let ?c = "rejected_config default_props ''a@b.com'' ''x'' ''Invalid credentials''"
  let ?h = "handle (?c\<lparr>inflight := Suc 0\<rparr>) (onSubmit_start (st ?c))"
  have r: "reachable ?c"
    by (rule rejected_config_reachable) (simp_all add: ready_config_def)
  have n: "authToast (st ?c) \<noteq> None" by (simp add: rejected_config_def)
  have s: "step ?c Submit = Some (fst ?h, snd ?h)"
    using rejected_config_settled[of default_props "''a@b.com''" "''x''"
        "''Invalid credentials''"]
    by (simp add: can_submit_iff)
       (simp add: rejected_config_def ready_config_def)
  from submit_clears_notification_first[OF r, of "fst ?h" "snd ?h"] s
  have "authToast (st (fst ?h)) = None \<and> loading (st (fst ?h))" by blast
  with r n s show ?thesis by simp
qed

subsection \<open>No second submission\<close>

lemma flush_no_backend: "filter is_backend (snd (flush c)) = []"
  by (simp add: flush_def effects_of_def session_effect_def authToast_effect_def
      view_effect_def pathname_effect_def split: option.splits)

lemma toggle_click_no_backend: "filter is_backend (calls_of (toggle_click pr s)) = []"
  by (simp add: toggle_click_def toggle_onClick_def)

lemma toggle_click_loading: "loading (apply_ops s (toggle_click pr s')) = loading s"
  by (simp add: toggle_click_def toggle_onClick_def)

text \<open>
  C6. While the in-flight flag is set, the submit button is rendered disabled and the
  form cannot be submitted; exactly one request is unanswered. Whatever else happens
  calls no backend operation, and the flag stays set, with the one request unanswered,
  until the answer arrives.
\<close>

theorem no_second_submit_in_flight:
  assumes "reachable c" and "loading (st c)"
  shows "submit_disabled (st c) \<and> step c Submit = None \<and> inflight c = 1
       \<and> (step c e = Some (c', cs) \<longrightarrow>
            filter is_backend cs = []
            \<and> ((\<forall>r. e \<noteq> Respond r) \<longrightarrow> loading (st c') \<and> inflight c' = 1))"
proof -
  from assms(1) have "submission_inv c" by (rule reachable_submission_inv)
  with assms(2) have i: "inflight c = 1" by (simp add: submission_inv_def)
  have d: "submit_disabled (st c)" using assms(2) by (simp add: submit_disabled_def)
  then have n: "step c Submit = None" by (simp add: can_submit_def)
  have "step c e = Some (c', cs) \<longrightarrow>
            filter is_backend cs = []
            \<and> ((\<forall>r. e \<noteq> Respond r) \<longrightarrow> loading (st c') \<and> inflight c' = 1)"
  proof (cases e)
    case Flush
    show ?thesis
    proof
      assume "step c e = Some (c', cs)"
      with Flush have c': "c' = fst (flush c)" and cs: "cs = snd (flush c)"
        by (auto split: if_splits)
      from assms(2) i show "filter is_backend cs = []
          \<and> ((\<forall>r. e \<noteq> Respond r) \<longrightarrow> loading (st c') \<and> inflight c' = 1)"
        by (simp add: cs flush_no_backend) (simp add: c' flush_def)
    qed
  next
    case Submit
    with n show ?thesis by simp
  next
    case (Respond r)
    then show ?thesis
      by (auto simp: handle_def onSubmit_resume_def split: if_splits option.splits)
  next
    case ClickToggle
    with assms(2) i show ?thesis
      by (auto simp: handle_def toggle_click_no_backend toggle_click_loading
          split: if_splits)
  qed (use assms(2) i in \<open>auto simp: handle_def split: if_splits\<close>)
  with d n i show ?thesis by blast
qed

theorem no_second_submit_in_flight_witness:
  "reachable (awaiting_config default_props ''a@b.com'' ''x'')
   \<and> loading (st (awaiting_config default_props ''a@b.com'' ''x''))
   \<and> submit_disabled (st (awaiting_config default_props ''a@b.com'' ''x''))
   \<and> step (awaiting_config default_props ''a@b.com'' ''x'') Submit = None
   \<and> inflight (awaiting_config default_props ''a@b.com'' ''x'') = 1
   \<and> step (awaiting_config default_props ''a@b.com'' ''x'') (ChangeEmail ''c@d.com'')
       = Some (handle (awaiting_config default_props ''a@b.com'' ''x'')
                 [Upd (SetEmail ''c@d.com'')])
   \<and> loading (st (fst (handle (awaiting_config default_props ''a@b.com'' ''x'')
                 [Upd (SetEmail ''c@d.com'')])))"
proof -
  let ?c = "awaiting_config default_props ''a@b.com'' ''x''"
  let ?h = "handle ?c [Upd (SetEmail ''c@d.com'')]"
  have r: "reachable ?c"
    by (rule awaiting_config_reachable) (simp_all add: ready_config_def)
  have l: "loading (st ?c)" by (simp add: awaiting_config_def)
  have s: "step ?c (ChangeEmail ''c@d.com'') = Some (fst ?h, snd ?h)"
    using awaiting_config_settled[of default_props "''a@b.com''" "''x''"] by simp
  note t = no_second_submit_in_flight[OF r l, of "ChangeEmail ''c@d.com''" "fst ?h" "snd ?h"]
  from t s have "loading (st (fst ?h))" by blast
  with t r l s show ?thesis by simp
qed

subsection \<open>The login/signup toggle\<close>

text \<open>
  C7. A click on the footer toggle never calls the navigation function. With routing
  disabled it writes the view directly, login from signup and signup from any other
  view, and calls nothing. With routing enabled the toggle is the link component with a
  fixed address for each direction (\<^verbatim>\<open>/auth/login\<close> from signup, \<^verbatim>\<open>/auth/signup\<close>
  otherwise): the click follows that link, and the view is written only if the link
  component passes the click handler on, which the built-in one does not.
\<close>

theorem toggle_swaps_or_links:
  assumes "step c ClickToggle = Some (c', cs)"
  shows "filter is_navigate cs = []
       \<and> (truthy (disableRouting (props c)) \<longrightarrow>
            cs = []
            \<and> st c' = (st c)\<lparr>view := (if view (st c) = Signup then Login else Signup)\<rparr>)
       \<and> (\<not> truthy (disableRouting (props c)) \<longrightarrow>
            cs = [FollowLink (if view (st c) = Signup then ''/auth/login''
                              else ''/auth/signup'')]
            \<and> st c' =
                (if link_passes_onClick (linkComponent_of (props c))
                 then (st c)\<lparr>view := (if view (st c) = Signup then Login else Signup)\<rparr>
                 else st c))"
proof -
  from assms have c': "c' = fst (handle c (toggle_click (props c) (st c)))"
    and cs: "cs = snd (handle c (toggle_click (props c) (st c)))"
    by (auto split: if_splits)
  show ?thesis
    by (simp add: c' cs handle_def toggle_click_def toggle_onClick_def toggle_href_def)
qed

theorem toggle_swaps_or_links_witness:
  "truthy (disableRouting (default_props\<lparr>disableRouting := Some True\<rparr>))
   \<and> view (st (ready_config (default_props\<lparr>disableRouting := Some True\<rparr>) [] [])) = Login
   \<and> step (ready_config (default_props\<lparr>disableRouting := Some True\<rparr>) [] []) ClickToggle
       = Some (handle (ready_config (default_props\<lparr>disableRouting := Some True\<rparr>) [] [])
                 [Upd (SetView Signup)])
   \<and> snd (handle (ready_config (default_props\<lparr>disableRouting := Some True\<rparr>) [] [])
          [Upd (SetView Signup)]) = []
   \<and> view (st (fst (handle (ready_config (default_props\<lparr>disableRouting := Some True\<rparr>)
          [] []) [Upd (SetView Signup)]))) = Signup"
proof -
  let ?pr = "default_props\<lparr>disableRouting := Some True\<rparr>"
  let ?c = "ready_config ?pr [] []"
  let ?h = "handle ?c [Upd (SetView Signup)]"
  have p: "pathname_of ?pr = None" by (simp add: pathname_of_def default_props_def)
  have t: "truthy (disableRouting (props ?c))" by (simp add: ready_config_def)
  have v: "view (st ?c) = Login"
    by (simp add: ready_config_def initialView_of_def default_props_def)
  have s: "step ?c ClickToggle = Some (fst ?h, snd ?h)"
    using ready_config_settled[OF p, of "[]" "[]"] v
    by (simp add: toggle_click_def toggle_onClick_def) (simp add: ready_config_def)
  from toggle_swaps_or_links[OF s] t v
  have "snd ?h = []" and "st (fst ?h) = (st ?c)\<lparr>view := Signup\<rparr>" by simp_all
  then have "snd ?h = []" and "view (st (fst ?h)) = Signup" by simp_all
  with t v s show ?thesis by (simp add: ready_config_def)
qed

text \<open>
  With routing enabled and the built-in link, a click on the toggle in the login view
  follows the link to \<^verbatim>\<open>/auth/signup\<close>; no navigation function is called and the
  configuration is unchanged.
\<close>

theorem toggle_calls_navigate_counterexample:
  "\<not> truthy (disableRouting default_props)
   \<and> view (st (ready_config default_props [] [])) = Login
   \<and> reachable (ready_config default_props [] [])
   \<and> step (ready_config default_props [] []) ClickToggle
       = Some (ready_config default_props [] [], [FollowLink ''/auth/signup''])
   \<and> filter is_navigate [FollowLink ''/auth/signup''] = []"
proof -
  let ?c = "ready_config default_props [] []"
  have r: "reachable ?c" by (rule ready_config_reachable) simp_all
  have v: "view (st ?c) = Login" by (simp add: ready_config_def)
  have s: "step ?c ClickToggle = Some (?c, [FollowLink ''/auth/signup''])"
    using ready_config_settled[of default_props "[]" "[]"] v
    by (simp add: handle_def toggle_click_def toggle_href_def linkComponent_of_def)
       (simp add: ready_config_def default_props_def)
  from r v s show ?thesis by (simp add: default_props_def)
qed

subsection \<open>The backend operation of a submission\<close>

lemma step_submit_calls:
  "step c Submit = Some (c', cs) \<Longrightarrow>
     cs = [Backend (SignInEmail (email (st c)) (password (st c)))]"
  by (auto simp: handle_def onSubmit_start_def split: if_splits)

text \<open>
  C8. What a submission calls does not depend on the magic-link mode: with the mode on
  and with it off the calls are the same, and with the mode on the call is the
  password sign-in with the email and the password of the state.
\<close>

theorem submit_ignores_magic_link_mode:
  "map_option snd (step (c\<lparr>st := (st c)\<lparr>isMagicLink := True\<rparr>\<rparr>) Submit)
     = map_option snd (step (c\<lparr>st := (st c)\<lparr>isMagicLink := False\<rparr>\<rparr>) Submit)
   \<and> (isMagicLink (st c) \<and> step c Submit = Some (c', cs) \<longrightarrow>
        cs = [Backend (SignInEmail (email (st c)) (password (st c)))])"
proof
  show "map_option snd (step (c\<lparr>st := (st c)\<lparr>isMagicLink := True\<rparr>\<rparr>) Submit)
     = map_option snd (step (c\<lparr>st := (st c)\<lparr>isMagicLink := False\<rparr>\<rparr>) Submit)"
    by (simp add: settled_def deps_of_def can_submit_iff handle_def
        onSubmit_start_def)
  show "isMagicLink (st c) \<and> step c Submit = Some (c', cs) \<longrightarrow>
        cs = [Backend (SignInEmail (email (st c)) (password (st c)))]"
    using step_submit_calls by blast
qed

theorem submit_ignores_magic_link_mode_witness:
  "isMagicLink (st (ready_config (default_props\<lparr>startWithMagicLink := Some True\<rparr>)
      ''a@b.com'' []))
   \<and> step (ready_config (default_props\<lparr>startWithMagicLink := Some True\<rparr>) ''a@b.com'' [])
        Submit
      = Some (awaiting_config (default_props\<lparr>startWithMagicLink := Some True\<rparr>)
                ''a@b.com'' [],
              [Backend (SignInEmail ''a@b.com'' [])])"
proof -
  let ?pr = "default_props\<lparr>startWithMagicLink := Some True\<rparr>"
  let ?c = "ready_config ?pr ''a@b.com'' []"
  have p: "pathname_of ?pr = None" by (simp add: pathname_of_def default_props_def)
  have m: "isMagicLink (st ?c)"
    by (simp add: ready_config_def initialView_of_def default_props_def)
  obtain cs where s: "step ?c Submit = Some (awaiting_config ?pr ''a@b.com'' [], cs)"
    using ready_config_submit[OF p, of "''a@b.com''" "[]"] by simp
  from submit_ignores_magic_link_mode[of ?c "awaiting_config ?pr ''a@b.com'' []" cs] m s
  have "cs = [Backend (SignInEmail (email (st ?c)) (password (st ?c)))]" by blast
  then have "cs = [Backend (SignInEmail ''a@b.com'' [])]"
    by (simp add: ready_config_def)
  with m s show ?thesis by simp
qed

text \<open>
  Started in magic-link mode, the form with the email \<^verbatim>\<open>a@b.com\<close> submits the password
  sign-in with an empty password, the very call the form submits in password mode.
\<close>

theorem magic_link_submit_counterexample:
  "reachable (ready_config (default_props\<lparr>startWithMagicLink := Some True\<rparr>)
      ''a@b.com'' [])
   \<and> isMagicLink (st (ready_config (default_props\<lparr>startWithMagicLink := Some True\<rparr>)
      ''a@b.com'' []))
   \<and> map_option snd (step (ready_config (default_props\<lparr>startWithMagicLink := Some True\<rparr>)
        ''a@b.com'' []) Submit)
      = Some [Backend (SignInEmail ''a@b.com'' [])]
   \<and> reachable (ready_config default_props ''a@b.com'' [])
   \<and> \<not> isMagicLink (st (ready_config default_props ''a@b.com'' []))
   \<and> map_option snd (step (ready_config default_props ''a@b.com'' []) Submit)
      = Some [Backend (SignInEmail ''a@b.com'' [])]"
proof -
  let ?pr = "default_props\<lparr>startWithMagicLink := Some True\<rparr>"
  have p: "pathname_of ?pr = None" by (simp add: pathname_of_def default_props_def)
  have "reachable (ready_config ?pr ''a@b.com'' [])"
    using p by (rule ready_config_reachable) simp
  moreover have "isMagicLink (st (ready_config ?pr ''a@b.com'' []))"
    by (simp add: ready_config_def initialView_of_def default_props_def)
  moreover have "map_option snd (step (ready_config ?pr ''a@b.com'' []) Submit)
      = Some [Backend (SignInEmail ''a@b.com'' [])]"
    using ready_config_submit[OF p, of "''a@b.com''" "[]"] by simp
  moreover have "reachable (ready_config default_props ''a@b.com'' [])"
    by (rule ready_config_reachable) simp_all
  moreover have "\<not> isMagicLink (st (ready_config default_props ''a@b.com'' []))"
    by (simp add: ready_config_def)
  moreover have "map_option snd (step (ready_config default_props ''a@b.com'' []) Submit)
      = Some [Backend (SignInEmail ''a@b.com'' [])]"
    using ready_config_submit[of default_props "''a@b.com''" "[]"] by simp
  ultimately show ?thesis by blast
qed

subsection \<open>Required fields\<close>

text \<open>
  C9. The email field is rendered required, enabled and of type \<^verbatim>\<open>email\<close>, so the
  form is not submitted while the email is empty. The password field is never rendered
  required; it is rendered disabled exactly in magic-link mode, and it never stops a
  submission. The form can be submitted exactly when the configuration is settled, no
  submission is in flight and the email field holds a valid address, whatever the
  password field holds.
\<close>

theorem email_required_password_not:
  "required (email_input s) \<and> \<not> disabled (email_input s)
   \<and> input_type (email_input s) = EmailType
   \<and> \<not> required (password_input s)
   \<and> disabled (password_input s) = isMagicLink s
   \<and> \<not> blocks_submission (password_input s)
   \<and> (email (st c) = [] \<longrightarrow> step c Submit = None)
   \<and> (step c Submit \<noteq> None)
       = (settled c \<and> \<not> loading (st c) \<and> valid_email_address (email (st c)))"
proof -
  have "email (st c) = [] \<longrightarrow> step c Submit = None"
    using valid_email_nonempty[of "email (st c)"] by (auto simp: can_submit_iff)
  moreover have "(step c Submit \<noteq> None)
       = (settled c \<and> \<not> loading (st c) \<and> valid_email_address (email (st c)))"
    by (simp add: can_submit_iff)
  moreover have "\<not> blocks_submission (password_input s)"
    by (simp add: blocks_submission_def type_mismatch_def password_input_def)
  ultimately show ?thesis
    by (simp add: email_input_def password_input_def)
qed

theorem email_required_password_not_witness:
  "settled (ready_config default_props ''a@b.com'' [])
   \<and> \<not> loading (st (ready_config default_props ''a@b.com'' []))
   \<and> email (st (ready_config default_props ''a@b.com'' [])) = ''a@b.com''
   \<and> password (st (ready_config default_props ''a@b.com'' [])) = []
   \<and> step (ready_config default_props ''a@b.com'' []) Submit \<noteq> None
   \<and> email (st (ready_config default_props [] ''x'')) = []
   \<and> step (ready_config default_props [] ''x'') Submit = None
   \<and> email (st (ready_config default_props ''abc'' ''x'')) = ''abc''
   \<and> step (ready_config default_props ''abc'' ''x'') Submit = None"
proof -
  let ?c = "ready_config default_props ''a@b.com'' []"
  let ?d = "ready_config default_props [] ''x''"
  let ?e = "ready_config default_props ''abc'' ''x''"
  have s: "settled ?c" by (rule ready_config_settled) simp
  have l: "\<not> loading (st ?c)" "email (st ?c) = ''a@b.com''" "password (st ?c) = []"
    by (simp_all add: ready_config_def)
  have e: "email (st ?d) = []" by (simp add: ready_config_def)
  have a: "email (st ?e) = ''abc''" by (simp add: ready_config_def)
  from email_required_password_not[of "st ?c" ?c] s l
  have 1: "step ?c Submit \<noteq> None" by simp
  from email_required_password_not[of "st ?d" ?d] e
  have 2: "step ?d Submit = None" by blast
  from email_required_password_not[of "st ?e" ?e]
  have "(step ?e Submit \<noteq> None)
      = (settled ?e \<and> \<not> loading (st ?e) \<and> valid_email_address (email (st ?e)))"
    by blast
  then have "(step ?e Submit = None)
      = (\<not> (settled ?e \<and> \<not> loading (st ?e) \<and> valid_email_address (email (st ?e))))"
    by blast
  with a have 3: "step ?e Submit = None" by (simp del: step.simps)
  from s l e a 1 2 3 show ?thesis by blast
qed

text \<open>
  In password mode, with an email and an empty password, the password field is not
  required and the form is submitted: the sign-in is called with the empty password.
\<close>

theorem password_required_counterexample:
  "reachable (ready_config default_props ''a@b.com'' [])
   \<and> \<not> isMagicLink (st (ready_config default_props ''a@b.com'' []))
   \<and> \<not> required (password_input (st (ready_config default_props ''a@b.com'' [])))
   \<and> input_value (password_input (st (ready_config default_props ''a@b.com'' []))) = []
   \<and> step (ready_config default_props ''a@b.com'' []) Submit
      = Some (awaiting_config default_props ''a@b.com'' [],
              [Backend (SignInEmail ''a@b.com'' [])])"
proof -
  let ?c = "ready_config default_props ''a@b.com'' []"
  have "reachable ?c" by (rule ready_config_reachable) simp_all
  moreover have "\<not> isMagicLink (st ?c)" by (simp add: ready_config_def)
  moreover have "\<not> required (password_input (st ?c))"
    and "input_value (password_input (st ?c)) = []"
    by (simp_all add: password_input_def ready_config_def)
  moreover have "step ?c Submit = Some (awaiting_config default_props ''a@b.com'' [],
              [Backend (SignInEmail ''a@b.com'' [])])"
    by (rule ready_config_submit) simp_all
  ultimately show ?thesis by blast
qed

subsection \<open>One backend operation\<close>

text \<open>
  C10. Whatever happens to the component, in whatever view, the only backend calls are
  those of a submission, and a submission makes exactly one: the password sign-in with
  the email and the password of the state. The handler does not read the view.
\<close>

theorem submit_always_signs_in_with_password:
  assumes "step c e = Some (c', cs)"
  shows "filter is_backend cs =
           (if e = Submit
            then [Backend (SignInEmail (email (st c)) (password (st c)))]
            else [])
       \<and> calls_of (onSubmit_start ((st c)\<lparr>view := v\<rparr>)) =
           [Backend (SignInEmail (email (st c)) (password (st c)))]"
proof -
  have "filter is_backend cs =
           (if e = Submit
            then [Backend (SignInEmail (email (st c)) (password (st c)))]
            else [])"
  proof (cases e)
    case Flush
    with assms have "cs = snd (flush c)" by (auto split: if_splits)
    with Flush show ?thesis by (simp add: flush_no_backend)
  next
    case Submit
    with assms have "cs = [Backend (SignInEmail (email (st c)) (password (st c)))]"
      by (simp only: step_submit_calls)
    with Submit show ?thesis by simp
  next
    case (Respond r)
    with assms show ?thesis
      by (auto simp: handle_def onSubmit_resume_def split: if_splits option.splits)
  next
    case ClickToggle
    with assms show ?thesis
      by (auto simp: handle_def toggle_click_no_backend split: if_splits)
  qed (use assms in \<open>auto simp: handle_def split: if_splits\<close>)
  then show ?thesis by (simp add: onSubmit_start_def)
qed

theorem submit_always_signs_in_with_password_witness:
  "view (st (ready_config (default_props\<lparr>initialView := Some Logout\<rparr>) ''a@b.com'' ''x''))
     = Logout
   \<and> reachable (ready_config (default_props\<lparr>initialView := Some Logout\<rparr>) ''a@b.com'' ''x'')
   \<and> step (ready_config (default_props\<lparr>initialView := Some Logout\<rparr>) ''a@b.com'' ''x'')
        Submit
      = Some (awaiting_config (default_props\<lparr>initialView := Some Logout\<rparr>)
                ''a@b.com'' ''x'',
              [Backend (SignInEmail ''a@b.com'' ''x'')])
   \<and> filter is_backend [Backend (SignInEmail ''a@b.com'' ''x'')]
      = [Backend (SignInEmail ''a@b.com'' ''x'')]"
proof -
  let ?pr = "default_props\<lparr>initialView := Some Logout\<rparr>"
  let ?c = "ready_config ?pr ''a@b.com'' ''x''"
  have p: "pathname_of ?pr = None" by (simp add: pathname_of_def default_props_def)
  have v: "view (st ?c) = Logout"
    by (simp add: ready_config_def initialView_of_def default_props_def)
  have r: "reachable ?c"
    using p by (rule ready_config_reachable)
      (simp add: ready_config_def initialView_of_def default_props_def)
  have s: "step ?c Submit = Some (awaiting_config ?pr ''a@b.com'' ''x'',
              [Backend (SignInEmail ''a@b.com'' ''x'')])"
    using p by (rule ready_config_submit) simp
  from submit_always_signs_in_with_password[OF s, of Logout]
  have "filter is_backend [Backend (SignInEmail ''a@b.com'' ''x'')]
      = [Backend (SignInEmail ''a@b.com'' ''x'')]"
    by (simp add: ready_config_def)
  with v r s show ?thesis by blast
qed

subsection \<open>The render after a view change\<close>

text \<open>
  The render between a change of the view and the view effect is reached by clicks as
  well: with routing disabled, a click on the magic-link button and a click on the
  toggle leave the signup view rendered with the magic-link mode still on.
\<close>

lemma magic_link_on_after_toggle:
  "run (ready_config (default_props\<lparr>magicLink := Some True, disableRouting := Some True\<rparr>)
         [] [])
     [ClickMagicLink, ClickToggle]
   = Some ((ready_config (default_props\<lparr>magicLink := Some True,
               disableRouting := Some True\<rparr>) [] [])
             \<lparr>st := \<lparr>email = [], password = [], loading = False, view = Signup,
                     isMagicLink = True, authToast = None\<rparr>\<rparr>, [])"
proof -
  let ?pr = "default_props\<lparr>magicLink := Some True, disableRouting := Some True\<rparr>"
  let ?c = "ready_config ?pr [] []"
  let ?c1 = "?c\<lparr>st := (st ?c)\<lparr>isMagicLink := True\<rparr>\<rparr>"
  have p: "pathname_of ?pr = None" by (simp add: pathname_of_def default_props_def)
  have s: "settled ?c" using p by (rule ready_config_settled)
  then have s1: "settled ?c1" by (simp add: settled_def deps_of_def)
  have v: "st ?c = \<lparr>email = [], password = [], loading = False, view = Login,
                     isMagicLink = False, authToast = None\<rparr>"
    by (simp add: ready_config_def initialView_of_def emailPassword_of_def
        default_props_def)
  have 1: "step ?c ClickMagicLink = Some (?c1, [])"
    using s by (simp add: magicLink_button_disabled_def handle_def v)
      (simp add: ready_config_def)
  have 2: "step ?c1 ClickToggle = Some (?c\<lparr>st := \<lparr>email = [], password = [],
      loading = False, view = Signup, isMagicLink = True, authToast = None\<rparr>\<rparr>, [])"
    using s1 by (simp add: handle_def toggle_click_def toggle_onClick_def v)
      (simp add: ready_config_def)
  from 1 2 show ?thesis by simp
qed

lemma magic_link_on_after_toggle_reachable:
  "reachable ((ready_config (default_props\<lparr>magicLink := Some True,
        disableRouting := Some True\<rparr>) [] [])
      \<lparr>st := \<lparr>email = [], password = [], loading = False, view = Signup,
              isMagicLink = True, authToast = None\<rparr>\<rparr>)"
proof -
  have "pathname_of (default_props\<lparr>magicLink := Some True, disableRouting := Some True\<rparr>)
      = None"
    by (simp add: pathname_of_def default_props_def)
  then have "reachable (ready_config (default_props\<lparr>magicLink := Some True,
      disableRouting := Some True\<rparr>) [] [])"
    by (rule ready_config_reachable) simp
  then show ?thesis
    using magic_link_on_after_toggle by (rule run_reachable)
qed

end
